theory Spec2Isabelle
  imports Main "HOL-Library.Word" "HOL-Library.AList"
begin

section \<open>Data model (main.go, lines 32-87)\<close>

text \<open>
  The structs of \<^verbatim>\<open>main.go\<close> as records. A Go \<^verbatim>\<open>string\<close> is a byte sequence, here a
  \<^typ>\<open>string\<close> (a list of 8-bit characters). \<^verbatim>\<open>int64\<close> is a 64-bit word read in two's
  complement. A \<^verbatim>\<open>time.Time\<close> is the instant it denotes, an integer count of
  nanoseconds; \<^verbatim>\<open>Before\<close> is \<open><\<close> on instants. The pointer \<^verbatim>\<open>*ExifInfo\<close> is an
  option, \<^verbatim>\<open>nil\<close> being \<open>None\<close>. Go's \<^verbatim>\<open>int\<close> fields are 64-bit on the released
  targets. Several structs have a field of the same name; the names of
  \<^verbatim>\<open>AssetDetails\<close> are used unqualified, the others with their record's name.
\<close>

type_synonym Time = int

record Config =
  ImmichURL :: string
  APIKey :: string
  AutoDelete :: bool
  DryRun :: bool
  Yes :: bool
  Verbose :: bool

record DuplicateAsset =
  ID :: string

record DuplicateGroup =
  DuplicateID :: string
  Assets :: "DuplicateAsset list"

record ExifInfo =
  FileSizeInByte :: "64 word"
  ImageWidth :: "64 word"
  ImageHeight :: "64 word"

record Asset =
  ID :: string
  OriginalFileName :: string
  ExifInfo :: "ExifInfo option"
  FileCreatedAt :: Time

record Album =
  ID :: string
  AlbumName :: string
  Assets :: "Asset list"
  AssetCount :: "64 word"

record AssetDetails =
  ID :: string
  OriginalFileName :: string
  ExifInfo :: "ExifInfo option"
  FileCreatedAt :: Time

section \<open>Filename classifier (main.go, lines 415-427)\<close>

text \<open>
  File names are byte strings. \<^verbatim>\<open>strings.ToUpper\<close> is modelled on the ASCII range:
  the letters \<^verbatim>\<open>a\<close> to \<^verbatim>\<open>z\<close> (97 to 122) move to \<^verbatim>\<open>A\<close> to \<^verbatim>\<open>Z\<close>, every other
  byte stays. Go also maps the letters outside ASCII to their upper case; since the
  prefixes are ASCII, this changes the outcome of the prefix test only for a letter whose
  upper case is an ASCII letter (such as U+0131 and U+017F), which the model leaves out.
\<close>

definition toUpperByte :: "char \<Rightarrow> char" where
  "toUpperByte c =
     (let n = (of_char c :: nat) in if 97 \<le> n \<and> n \<le> 122 then char_of (n - 32) else c)"

definition ToUpper :: "string \<Rightarrow> string" where
  "ToUpper s = map toUpperByte s"

text \<open>\<^verbatim>\<open>strings.HasPrefix(s, prefix)\<close> is
  \<^verbatim>\<open>len(s) >= len(prefix) && s[:len(prefix)] == prefix\<close>.\<close>

definition HasPrefix :: "string \<Rightarrow> string \<Rightarrow> bool" where
  "HasPrefix s p = (length p \<le> length s \<and> take (length p) s = p)"

definition prefixes :: "string list" where
  "prefixes = [''IMG_'', ''DSC_'', ''DSCN'', ''P_'', ''PHOTO_'', ''VID_'']"

text \<open>The loop over the prefixes, with its early \<^verbatim>\<open>return false\<close>.\<close>

fun noPrefixMatches :: "string \<Rightarrow> string list \<Rightarrow> bool" where
  "noPrefixMatches upper [] = True"
| "noPrefixMatches upper (p # ps) =
     (if HasPrefix upper p then False else noPrefixMatches upper ps)"

definition isOriginalFilename :: "string \<Rightarrow> bool" where
  "isOriginalFilename filename = (let upper = ToUpper filename in noPrefixMatches upper prefixes)"

section \<open>Quality ranker (main.go, lines 384-413)\<close>

text \<open>
  The argument \<^verbatim>\<open>assets map[string]*AssetDetails\<close> is an association list with distinct
  keys; its order is the order in which this run of \<^verbatim>\<open>range assets\<close> visits the
  entries, which Go leaves unspecified, so the same map in another iteration order is a
  permutation of the list. \<^verbatim>\<open>assets[bestID]\<close> is \<^const>\<open>map_of\<close>; a missing key yields a
  nil pointer, and reading a field through it panics. The values stored by the only
  caller are pointers to freshly decoded structs, so a value is a record.
\<close>

datatype panic = NilPointerDereference

fun selectLoop ::
  "(string \<rightharpoonup> AssetDetails) \<Rightarrow> (string \<times> AssetDetails) list \<Rightarrow> string \<times> 64 word
    \<Rightarrow> panic + string" where
  "selectLoop assets [] (bestID, bestSize) = Inr bestID"
| "selectLoop assets ((assetID, details) # rest) (bestID, bestSize) =
     (case ExifInfo details of
        None \<Rightarrow> selectLoop assets rest (bestID, bestSize)
      | Some exif \<Rightarrow>
          (let size = FileSizeInByte exif in
           if bestSize <s size then selectLoop assets rest (assetID, size)
           else if size = bestSize \<and> bestID \<noteq> '''' then
             (case assets bestID of
                None \<Rightarrow> Inl NilPointerDereference
              | Some best \<Rightarrow>
                  if isOriginalFilename (OriginalFileName details)
                     \<and> \<not> isOriginalFilename (OriginalFileName best)
                  then selectLoop assets rest (assetID, bestSize)
                  else if FileCreatedAt details < FileCreatedAt best
                  then selectLoop assets rest (assetID, bestSize)
                  else selectLoop assets rest (bestID, bestSize))
           else selectLoop assets rest (bestID, bestSize)))"

definition selectBestQualityAsset :: "(string \<times> AssetDetails) list \<Rightarrow> panic + string" where
  "selectBestQualityAsset assets = selectLoop (map_of assets) assets ('''', - 1)"

section \<open>The remote service, the operator and the log (main.go, lines 429-646)\<close>

text \<open>
  An \<^verbatim>\<open>error\<close> value is a message, possibly wrapping another error with \<^verbatim>\<open>%w\<close>.
\<close>

datatype error = Errorf string | Wrapf string error

text \<open>
  The four HTTP functions and \<^verbatim>\<open>fmt.Scanln\<close> reach outside the program. What they
  answer is a parameter of the model: each answer is a function of the request and of the
  state \<open>'g\<close> of the outside world (the Immich server and the operator), which the call
  may change. URL and API key are fixed for a run and belong to that state. The order in
  which \<^verbatim>\<open>range\<close> visits a map is chosen by the Go runtime; it is a parameter too, one
  function for each \<^verbatim>\<open>range\<close> statement over a map.
\<close>

record 'g env =
  albumsResponse :: "string \<Rightarrow> 'g \<Rightarrow> (error + Album list) \<times> 'g"
  detailsResponse :: "string \<Rightarrow> 'g \<Rightarrow> (error + AssetDetails) \<times> 'g"
  addResponse :: "string \<Rightarrow> string list \<Rightarrow> 'g \<Rightarrow> error option \<times> 'g"
  deleteResponse :: "string \<Rightarrow> 'g \<Rightarrow> error option \<times> 'g"
  scanlnResponse :: "'g \<Rightarrow> (error + string) \<times> 'g"
  rangeAssetAlbums :: "(string \<times> Album list) list \<Rightarrow> (string \<times> Album list) list"
  rangeAllAlbumIDs :: "string list \<Rightarrow> string list"
  rangeSelect :: "(string \<times> AssetDetails) list \<Rightarrow> (string \<times> AssetDetails) list"
  rangeDelete :: "(string \<times> AssetDetails) list \<Rightarrow> (string \<times> AssetDetails) list"

text \<open>
  The effects of the program are the requests it sends, recorded in order together with
  whether the call returned a nil error, and the lines it prints.
\<close>

datatype call =
    GetAlbumsForAsset string
  | GetAssetDetails string
  | AddAssetsToAlbum string "string list"
  | DeleteAsset string

datatype level = INFO | WARNING | ERROR | STDOUT

datatype message =
    ProcessingGroup nat nat nat
  | SkippingGroup
  | Synchronized nat
  | AlreadySynchronized
  | FetchAlbumsFailed string error
  | CurrentAssignments
  | AssetAssignment string "string list"
  | WouldAdd nat string
  | AddFailed string error
  | Added nat string
  | Analyzing nat
  | FetchDetailsFailed string error
  | NotEnoughDetails
  | BestAsset string
  | BestAssetSize "64 word" "64 word" "64 word"
  | NoDuplicatesToDelete
  | AboutToDelete nat
  | DeletionCancelled
  | DeletionCancelledByUser
  | WouldDelete string
  | DeleteFailed string error
  | Deleted string

record 'g world =
  remote :: 'g
  trace :: "(call \<times> bool) list"
  logs :: "(level \<times> message) list"

definition logInfo :: "message \<Rightarrow> 'g world \<Rightarrow> 'g world" where
  "logInfo m w = w\<lparr>logs := logs w @ [(INFO, m)]\<rparr>"

definition logWarning :: "message \<Rightarrow> 'g world \<Rightarrow> 'g world" where
  "logWarning m w = w\<lparr>logs := logs w @ [(WARNING, m)]\<rparr>"

definition logError :: "message \<Rightarrow> 'g world \<Rightarrow> 'g world" where
  "logError m w = w\<lparr>logs := logs w @ [(ERROR, m)]\<rparr>"

definition Printf :: "message \<Rightarrow> 'g world \<Rightarrow> 'g world" where
  "Printf m w = w\<lparr>logs := logs w @ [(STDOUT, m)]\<rparr>"

definition truncateID :: "string \<Rightarrow> string" where
  "truncateID i = (if length i > 8 then take 8 i else i)"

definition getAlbumsForAsset ::
  "'g env \<Rightarrow> string \<Rightarrow> 'g world \<Rightarrow> (error + Album list) \<times> 'g world" where
  "getAlbumsForAsset env assetID w =
     (let (r, g) = albumsResponse env assetID (remote w)
      in (r, w\<lparr>remote := g, trace := trace w @ [(GetAlbumsForAsset assetID, \<not> isl r)]\<rparr>))"

definition getAssetDetails ::
  "'g env \<Rightarrow> string \<Rightarrow> 'g world \<Rightarrow> (error + AssetDetails) \<times> 'g world" where
  "getAssetDetails env assetID w =
     (let (r, g) = detailsResponse env assetID (remote w)
      in (r, w\<lparr>remote := g, trace := trace w @ [(GetAssetDetails assetID, \<not> isl r)]\<rparr>))"

definition addAssetsToAlbum ::
  "'g env \<Rightarrow> string \<Rightarrow> string list \<Rightarrow> 'g world \<Rightarrow> error option \<times> 'g world" where
  "addAssetsToAlbum env albumID assetIDs w =
     (let (r, g) = addResponse env albumID assetIDs (remote w)
      in (r, w\<lparr>remote := g, trace := trace w @ [(AddAssetsToAlbum albumID assetIDs, r = None)]\<rparr>))"

definition deleteAsset :: "'g env \<Rightarrow> string \<Rightarrow> 'g world \<Rightarrow> error option \<times> 'g world" where
  "deleteAsset env assetID w =
     (let (r, g) = deleteResponse env assetID (remote w)
      in (r, w\<lparr>remote := g, trace := trace w @ [(DeleteAsset assetID, r = None)]\<rparr>))"

definition Scanln :: "'g env \<Rightarrow> 'g world \<Rightarrow> (error + string) \<times> 'g world" where
  "Scanln env w = (let (r, g) = scanlnResponse env (remote w) in (r, w\<lparr>remote := g\<rparr>))"

text \<open>\<^verbatim>\<open>strings.EqualFold\<close>, on ASCII letters as \<^const>\<open>ToUpper\<close> is.\<close>

definition EqualFold :: "string \<Rightarrow> string \<Rightarrow> bool" where
  "EqualFold s t = (ToUpper s = ToUpper t)"

section \<open>Album reconciler (main.go, lines 237-304)\<close>

text \<open>
  The maps \<^verbatim>\<open>assetAlbums\<close> and \<^verbatim>\<open>allAlbumIDs\<close> are an association list and a list
  of keys without repetition; a store replaces the value of a key that is present.
  Reading \<^verbatim>\<open>assetAlbums[asset.ID]\<close> for a key that is absent gives the nil slice.
  Counts are lengths of slices; they are natural numbers.
\<close>

fun fetchAlbums ::
  "'g env \<Rightarrow> DuplicateAsset list \<Rightarrow> (string \<times> Album list) list \<times> string list \<times> 'g world
    \<Rightarrow> (string \<times> Album list) list \<times> string list \<times> 'g world" where
  "fetchAlbums env [] st = st"
| "fetchAlbums env (asset # rest) (assetAlbums, allAlbumIDs, w) =
     (case getAlbumsForAsset env (DuplicateAsset.ID asset) w of
        (Inl err, w') \<Rightarrow>
          fetchAlbums env rest
            (assetAlbums, allAlbumIDs,
             logWarning (FetchAlbumsFailed (truncateID (DuplicateAsset.ID asset)) err) w')
      | (Inr albums, w') \<Rightarrow>
          fetchAlbums env rest
            (AList.update (DuplicateAsset.ID asset) albums assetAlbums,
             fold (\<lambda>album ids. List.insert (Album.ID album) ids) albums allAlbumIDs,
             w'))"

definition albumsOf :: "(string \<times> Album list) list \<Rightarrow> string \<Rightarrow> Album list" where
  "albumsOf assetAlbums assetID = (case map_of assetAlbums assetID of None \<Rightarrow> [] | Some albums \<Rightarrow> albums)"

definition inAlbum :: "Album list \<Rightarrow> string \<Rightarrow> bool" where
  "inAlbum albums albumID = list_ex (\<lambda>album. Album.ID album = albumID) albums"

definition assetsToAdd ::
  "DuplicateAsset list \<Rightarrow> (string \<times> Album list) list \<Rightarrow> string \<Rightarrow> string list" where
  "assetsToAdd assets assetAlbums albumID =
     map DuplicateAsset.ID
       (filter (\<lambda>asset. \<not> inAlbum (albumsOf assetAlbums (DuplicateAsset.ID asset)) albumID) assets)"

fun syncLoop ::
  "'g env \<Rightarrow> Config \<Rightarrow> DuplicateAsset list \<Rightarrow> (string \<times> Album list) list \<Rightarrow> string list
    \<Rightarrow> nat \<times> 'g world \<Rightarrow> nat \<times> 'g world" where
  "syncLoop env config assets assetAlbums [] st = st"
| "syncLoop env config assets assetAlbums (albumID # rest) (syncCount, w) =
     (let toAdd = assetsToAdd assets assetAlbums albumID in
      if length toAdd > 0 then
        if DryRun config then
          syncLoop env config assets assetAlbums rest
            (syncCount + length toAdd, logInfo (WouldAdd (length toAdd) (truncateID albumID)) w)
        else
          (case addAssetsToAlbum env albumID toAdd w of
             (Some err, w') \<Rightarrow>
               syncLoop env config assets assetAlbums rest
                 (syncCount, logError (AddFailed (truncateID albumID) err) w')
           | (None, w') \<Rightarrow>
               syncLoop env config assets assetAlbums rest
                 (syncCount + length toAdd,
                  logInfo (Added (length toAdd) (truncateID albumID)) w'))
      else syncLoop env config assets assetAlbums rest (syncCount, w))"

definition showAssignments ::
  "'g env \<Rightarrow> Config \<Rightarrow> (string \<times> Album list) list \<Rightarrow> 'g world \<Rightarrow> 'g world" where
  "showAssignments env config assetAlbums w =
     (if Verbose config then
        fold (\<lambda>(assetID, albums). logInfo (AssetAssignment (truncateID assetID) (map AlbumName albums)))
          (rangeAssetAlbums env assetAlbums) (logInfo CurrentAssignments w)
      else w)"

definition synchronizeAlbums ::
  "'g env \<Rightarrow> Config \<Rightarrow> DuplicateGroup \<Rightarrow> 'g world \<Rightarrow> (nat \<times> error option) \<times> 'g world" where
  "synchronizeAlbums env config grp w =
     (let (assetAlbums, allAlbumIDs, w1) = fetchAlbums env (DuplicateGroup.Assets grp) ([], [], w);
          w2 = showAssignments env config assetAlbums w1;
          (syncCount, w3) =
            syncLoop env config (DuplicateGroup.Assets grp) assetAlbums
              (rangeAllAlbumIDs env allAlbumIDs) (0, w2)
      in ((syncCount, None), w3))"

section \<open>Automatic deletion (main.go, lines 306-382)\<close>

fun fetchDetails ::
  "'g env \<Rightarrow> DuplicateAsset list \<Rightarrow> (string \<times> AssetDetails) list \<times> 'g world
    \<Rightarrow> (string \<times> AssetDetails) list \<times> 'g world" where
  "fetchDetails env [] st = st"
| "fetchDetails env (asset # rest) (assetDetails, w) =
     (case getAssetDetails env (DuplicateAsset.ID asset) w of
        (Inl err, w') \<Rightarrow>
          fetchDetails env rest
            (assetDetails,
             logWarning (FetchDetailsFailed (truncateID (DuplicateAsset.ID asset)) err) w')
      | (Inr details, w') \<Rightarrow>
          fetchDetails env rest (AList.update (DuplicateAsset.ID asset) details assetDetails, w'))"

fun deleteLoop :: "'g env \<Rightarrow> Config \<Rightarrow> string list \<Rightarrow> 'g world \<Rightarrow> 'g world" where
  "deleteLoop env config [] w = w"
| "deleteLoop env config (assetID # rest) w =
     (if DryRun config then
        deleteLoop env config rest (logInfo (WouldDelete (truncateID assetID)) w)
      else
        (case deleteAsset env assetID w of
           (Some err, w') \<Rightarrow>
             deleteLoop env config rest (logError (DeleteFailed (truncateID assetID) err) w')
         | (None, w') \<Rightarrow>
             deleteLoop env config rest (logInfo (Deleted (truncateID assetID)) w')))"

text \<open>The verbose line about the best asset reads \<^verbatim>\<open>assetDetails[bestAssetID].ExifInfo\<close>.\<close>

definition showBest ::
  "Config \<Rightarrow> (string \<times> AssetDetails) list \<Rightarrow> string \<Rightarrow> 'g world \<Rightarrow> panic + 'g world" where
  "showBest config assetDetails bestAssetID w =
     (if Verbose config then
        (case map_of assetDetails bestAssetID of
           None \<Rightarrow> Inl NilPointerDereference
         | Some best \<Rightarrow>
             (case ExifInfo best of
                None \<Rightarrow> Inr w
              | Some exif \<Rightarrow>
                  Inr (logInfo (BestAssetSize (FileSizeInByte exif) (ImageWidth exif)
                                 (ImageHeight exif)) w)))
      else Inr w)"

definition confirmAndDelete ::
  "'g env \<Rightarrow> Config \<Rightarrow> string list \<Rightarrow> 'g world \<Rightarrow> 'g world" where
  "confirmAndDelete env config assetsToDelete w =
     (if \<not> Yes config \<and> \<not> DryRun config then
        (case Scanln env (Printf (AboutToDelete (length assetsToDelete)) w) of
           (Inl err, w') \<Rightarrow> logInfo DeletionCancelled w'
         | (Inr response, w') \<Rightarrow>
             if \<not> EqualFold response ''y'' \<and> \<not> EqualFold response ''yes''
             then logInfo DeletionCancelledByUser w'
             else deleteLoop env config assetsToDelete w')
      else deleteLoop env config assetsToDelete w)"

definition autoDeleteDuplicates ::
  "'g env \<Rightarrow> Config \<Rightarrow> DuplicateGroup \<Rightarrow> 'g world \<Rightarrow> (panic + error option) \<times> 'g world" where
  "autoDeleteDuplicates env config grp w =
     (let w0 = logInfo (Analyzing (length (DuplicateGroup.Assets grp))) w;
          (assetDetails, w1) = fetchDetails env (DuplicateGroup.Assets grp) ([], w0)
      in if length assetDetails < 2 then (Inr None, logWarning NotEnoughDetails w1)
         else
           (case selectBestQualityAsset (rangeSelect env assetDetails) of
              Inl p \<Rightarrow> (Inl p, w1)
            | Inr bestAssetID \<Rightarrow>
                if bestAssetID = ''''
                then (Inr (Some (Errorf ''failed to determine best quality asset'')), w1)
                else
                  (case showBest config assetDetails bestAssetID
                          (logInfo (BestAsset (truncateID bestAssetID)) w1) of
                     Inl p \<Rightarrow> (Inl p, logInfo (BestAsset (truncateID bestAssetID)) w1)
                   | Inr w2 \<Rightarrow>
                       (let assetsToDelete =
                              filter (\<lambda>assetID. assetID \<noteq> bestAssetID)
                                (map fst (rangeDelete env assetDetails))
                        in if length assetsToDelete = 0
                           then (Inr None, logInfo NoDuplicatesToDelete w2)
                           else (Inr None, confirmAndDelete env config assetsToDelete w2)))))"

section \<open>Group processor (main.go, lines 206-235)\<close>

definition processDuplicateGroup ::
  "'g env \<Rightarrow> Config \<Rightarrow> nat \<Rightarrow> nat \<Rightarrow> DuplicateGroup \<Rightarrow> 'g world
    \<Rightarrow> (panic + error option) \<times> 'g world" where
  "processDuplicateGroup env config groupNum totalGroups grp w =
     (let w0 = logInfo (ProcessingGroup groupNum totalGroups (length (DuplicateGroup.Assets grp))) w
      in if length (DuplicateGroup.Assets grp) < 2 then (Inr None, logWarning SkippingGroup w0)
         else
           (case synchronizeAlbums env config grp w0 of
              ((syncCount, Some err), w1) \<Rightarrow>
                (Inr (Some (Wrapf ''album synchronization failed'' err)), w1)
            | ((syncCount, None), w1) \<Rightarrow>
                (let w2 = (if syncCount > 0 then logInfo (Synchronized syncCount) w1
                           else logInfo AlreadySynchronized w1)
                 in if AutoDelete config then
                      (case autoDeleteDuplicates env config grp w2 of
                         (Inl p, w3) \<Rightarrow> (Inl p, w3)
                       | (Inr (Some err), w3) \<Rightarrow> (Inr (Some (Wrapf ''auto-delete failed'' err)), w3)
                       | (Inr None, w3) \<Rightarrow> (Inr None, w3))
                    else (Inr None, w2))))"

section \<open>Notions of the specification\<close>





text \<open>A candidate possesses size metadata when its \<^verbatim>\<open>ExifInfo\<close> pointer is not nil.\<close>

definition hasSize :: "string \<times> AssetDetails \<Rightarrow> bool" where
  "hasSize kd = (ExifInfo (snd kd) \<noteq> None)"

text \<open>
  The candidate sets of the specification's data model: a map (distinct keys) whose asset
  identifiers are not the empty string, which the ranker uses as its sentinel, and whose
  byte sizes, where present, are non-negative.
\<close>

definition wellFormed :: "(string \<times> AssetDetails) list \<Rightarrow> bool" where
  "wellFormed assets \<longleftrightarrow>
     distinct (map fst assets)
     \<and> list_all (\<lambda>(k, d). k \<noteq> ''''
          \<and> (case ExifInfo d of None \<Rightarrow> True | Some e \<Rightarrow> 0 \<le>s FileSizeInByte e)) assets"

text \<open>The comparison the loop body makes between a candidate and the current best of the
  same byte size.\<close>

definition beats :: "AssetDetails \<Rightarrow> AssetDetails \<Rightarrow> bool" where
  "beats details best \<longleftrightarrow>
     (isOriginalFilename (OriginalFileName details) \<and> \<not> isOriginalFilename (OriginalFileName best))
     \<or> FileCreatedAt details < FileCreatedAt best"

text \<open>A candidate \<open>a\<close> ties with \<open>d\<close> on size and originality class and is strictly later.\<close>

definition tiedBehind ::
  "(string \<rightharpoonup> AssetDetails) \<Rightarrow> AssetDetails \<Rightarrow> string \<Rightarrow> AssetDetails \<Rightarrow> bool" where
  "tiedBehind assets d a da \<longleftrightarrow>
     a \<noteq> '''' \<and> assets a = Some da
     \<and> (isOriginalFilename (OriginalFileName da) \<longleftrightarrow> isOriginalFilename (OriginalFileName d))
     \<and> FileCreatedAt d < FileCreatedAt da"

section \<open>What a run did, read off its trace and its log\<close>

text \<open>The \<^verbatim>\<open>addAssetsToAlbum\<close> requests of a trace, as pairs of album and asset list.\<close>

fun addCall :: "call \<times> bool \<Rightarrow> (string \<times> string list) option" where
  "addCall (AddAssetsToAlbum albumID assetIDs, ok) = Some (albumID, assetIDs)"
| "addCall (GetAlbumsForAsset assetID, ok) = None"
| "addCall (GetAssetDetails assetID, ok) = None"
| "addCall (DeleteAsset assetID, ok) = None"

definition addCalls :: "(call \<times> bool) list \<Rightarrow> (string \<times> string list) list" where
  "addCalls tr = List.map_filter addCall tr"

text \<open>The \<^verbatim>\<open>deleteAsset\<close> requests of a trace.\<close>

fun deleteCall :: "call \<times> bool \<Rightarrow> string option" where
  "deleteCall (DeleteAsset assetID, ok) = Some assetID"
| "deleteCall (GetAlbumsForAsset assetID, ok) = None"
| "deleteCall (GetAssetDetails assetID, ok) = None"
| "deleteCall (AddAssetsToAlbum albumID assetIDs, ok) = None"

definition deleteCalls :: "(call \<times> bool) list \<Rightarrow> string list" where
  "deleteCalls tr = List.map_filter deleteCall tr"

text \<open>The (asset, album) pairs a trace added: those of the additions that succeeded.\<close>

fun addedBy :: "call \<times> bool \<Rightarrow> (string \<times> string) list" where
  "addedBy (AddAssetsToAlbum albumID assetIDs, ok) =
     (if ok then map (\<lambda>assetID. (assetID, albumID)) assetIDs else [])"
| "addedBy (GetAlbumsForAsset assetID, ok) = []"
| "addedBy (GetAssetDetails assetID, ok) = []"
| "addedBy (DeleteAsset assetID, ok) = []"

definition pairsAdded :: "(call \<times> bool) list \<Rightarrow> (string \<times> string) list" where
  "pairsAdded tr = concat (map addedBy tr)"

text \<open>The pairs requested by a list of additions.\<close>

definition pairsOf :: "(string \<times> string list) list \<Rightarrow> (string \<times> string) list" where
  "pairsOf adds = concat (map (\<lambda>(albumID, assetIDs). map (\<lambda>assetID. (assetID, albumID)) assetIDs) adds)"

text \<open>The assets a log announces as to be deleted in preview mode.\<close>

definition wouldDelete :: "level \<times> message \<Rightarrow> string option" where
  "wouldDelete lm = (case snd lm of WouldDelete assetID \<Rightarrow> Some assetID | _ \<Rightarrow> None)"

definition wouldDeleteLogged :: "(level \<times> message) list \<Rightarrow> string list" where
  "wouldDeleteLogged lg = List.map_filter wouldDelete lg"

text \<open>
  The additions that the memberships recorded in \<^verbatim>\<open>assetAlbums\<close> call for: for each
  album in the given order, the assets of the group that are not recorded as members, if
  there are any.
\<close>

definition additions ::
  "DuplicateAsset list \<Rightarrow> (string \<times> Album list) list \<Rightarrow> string list
    \<Rightarrow> (string \<times> string list) list" where
  "additions assets assetAlbums albumIDs =
     filter (\<lambda>(albumID, assetIDs). assetIDs \<noteq> [])
       (map (\<lambda>albumID. (albumID, assetsToAdd assets assetAlbums albumID)) albumIDs)"

section \<open>A stub of the outside world\<close>

text \<open>
  As the mock HTTP client of the test file does, the stub answers every request from fixed
  functions of the identifier asked about; it has no state of its own, reads no operator
  input and lets every \<^verbatim>\<open>range\<close> visit the keys in the order they were stored.
\<close>

definition stubEnv ::
  "(string \<Rightarrow> error + Album list) \<Rightarrow> (string \<Rightarrow> error + AssetDetails)
    \<Rightarrow> (string \<Rightarrow> error option) \<Rightarrow> (string \<Rightarrow> error option) \<Rightarrow> unit env" where
  "stubEnv albums details add del =
     \<lparr>albumsResponse = (\<lambda>assetID g. (albums assetID, g)),
      detailsResponse = (\<lambda>assetID g. (details assetID, g)),
      addResponse = (\<lambda>albumID assetIDs g. (add albumID, g)),
      deleteResponse = (\<lambda>assetID g. (del assetID, g)),
      scanlnResponse = (\<lambda>g. (Inl (Errorf ''EOF''), g)),
      rangeAssetAlbums = (\<lambda>kvs. kvs),
      rangeAllAlbumIDs = (\<lambda>ks. ks),
      rangeSelect = (\<lambda>kvs. kvs),
      rangeDelete = (\<lambda>kvs. kvs)\<rparr>"

definition emptyWorld :: "unit world" where
  "emptyWorld = \<lparr>remote = (), trace = [], logs = []\<rparr>"

definition testConfig :: "bool \<Rightarrow> Config" where
  "testConfig dry =
     \<lparr>ImmichURL = ''http://localhost:2283'', APIKey = ''test-key'', AutoDelete = True,
      DryRun = dry, Yes = False, Verbose = False\<rparr>"

definition albumX :: Album where
  "albumX = \<lparr>Album.ID = ''albumX'', AlbumName = ''Holidays'', Album.Assets = [], AssetCount = 1\<rparr>"

definition groupAB :: DuplicateGroup where
  "groupAB = \<lparr>DuplicateID = ''dup1'',
              DuplicateGroup.Assets = [\<lparr>DuplicateAsset.ID = ''assetA''\<rparr>, \<lparr>DuplicateAsset.ID = ''assetB''\<rparr>]\<rparr>"

text \<open>
  Builds the \<^verbatim>\<open>AssetDetails\<close> literal of the test file: identifier, file name, byte
  size and creation instant, with size metadata present.
\<close>

definition sizedAsset :: "string \<Rightarrow> string \<Rightarrow> 64 word \<Rightarrow> Time \<Rightarrow> AssetDetails" where
  "sizedAsset i name bytes created =
     \<lparr>ID = i, OriginalFileName = name,
      ExifInfo = Some \<lparr>FileSizeInByte = bytes, ImageWidth = 0, ImageHeight = 0\<rparr>,
      FileCreatedAt = created\<rparr>"

text \<open>
  Three stub worlds for the group of \<^verbatim>\<open>assetA\<close> and \<^verbatim>\<open>assetB\<close>: one where the album
  fetch succeeds for \<^verbatim>\<open>assetA\<close> (a member of \<^verbatim>\<open>albumX\<close>) and fails for \<^verbatim>\<open>assetB\<close>,
  one where both fetches succeed and only \<^verbatim>\<open>assetA\<close> is in \<^verbatim>\<open>albumX\<close>, one where both
  assets are in \<^verbatim>\<open>albumX\<close>. Every write is accepted.
\<close>

definition accept :: "string \<Rightarrow> error option" where
  "accept i = None"

definition noDetails :: "string \<Rightarrow> error + AssetDetails" where
  "noDetails assetID = Inl (Errorf ''not found'')"

definition detailsBySize :: "string \<Rightarrow> error + AssetDetails" where
  "detailsBySize assetID =
     Inr (sizedAsset assetID ''photo.jpg'' (if assetID = ''assetA'' then 1000 else 2000) 1)"

definition albumsAOnlyFetched :: "string \<Rightarrow> error + Album list" where
  "albumsAOnlyFetched assetID =
     (if assetID = ''assetA'' then Inr [albumX] else Inl (Errorf ''request failed''))"

definition albumsAInX :: "string \<Rightarrow> error + Album list" where
  "albumsAInX assetID = (if assetID = ''assetA'' then Inr [albumX] else Inr [])"

definition albumsBothInX :: "string \<Rightarrow> error + Album list" where
  "albumsBothInX assetID = Inr [albumX]"

definition envFetchOfBFails :: "unit env" where
  "envFetchOfBFails = stubEnv albumsAOnlyFetched noDetails accept accept"

definition envAInX :: "unit env" where
  "envAInX = stubEnv albumsAInX detailsBySize accept accept"

definition envBothInX :: "unit env" where
  "envBothInX = stubEnv albumsBothInX noDetails accept accept"

section \<open>The classifier agrees with the specification\<close>




section \<open>Properties of the ranker's loop\<close>

lemma sless_irrefl: "\<not> a <s a"
  by (simp add: word_sless_alt)

lemma sless_asym: "a <s b \<Longrightarrow> \<not> b <s a"
  by (simp add: word_sless_alt)

lemma minus_one_sless: "0 \<le>s (s :: 64 word) \<Longrightarrow> - 1 <s s"
  by (simp add: word_sless_alt word_sle_eq)

lemma selectLoop_total:
  assumes "\<forall>(a, da) \<in> set xs. assets a \<noteq> None" and "b = '''' \<or> assets b \<noteq> None"
  shows "\<exists>r. selectLoop assets xs (b, bs) = Inr r"
  using assms
proof (induction xs arbitrary: b bs)
  case Nil
  then show ?case by simp
next
  case (Cons x xs)
  obtain a da where x: "x = (a, da)" by (cases x)
  from Cons.prems have a: "assets a \<noteq> None" and rest: "\<forall>(a, da) \<in> set xs. assets a \<noteq> None"
    by (auto simp: x)
  have step: "\<exists>r. selectLoop assets xs (b', bs') = Inr r" if "b' = a \<or> b' = b" for b' bs'
    using that Cons.IH [OF rest, of b' bs'] a Cons.prems(2) by auto
  show ?case
    using Cons.prems(2) step unfolding x
    by (auto split: option.splits simp: Let_def)
qed

lemma selectLoop_keep:
  assumes "\<forall>(a, da) \<in> set xs. \<forall>e. ExifInfo da = Some e \<longrightarrow>
             FileSizeInByte e <s s
             \<or> (FileSizeInByte e = s \<and> (k = '''' \<or> (assets k = Some d \<and> \<not> beats da d)))"
  shows "selectLoop assets xs (k, s) = Inr k"
  using assms
proof (induction xs)
  case Nil
  then show ?case by simp
next
  case (Cons x xs)
  obtain a da where x: "x = (a, da)" by (cases x)
  from Cons have IH: "selectLoop assets xs (k, s) = Inr k" by simp
  show ?case
  proof (cases "ExifInfo da")
    case None
    then show ?thesis by (simp add: x IH)
  next
    case (Some e)
    with Cons.prems have "FileSizeInByte e <s s
        \<or> (FileSizeInByte e = s \<and> (k = '''' \<or> (assets k = Some d \<and> \<not> beats da d)))"
      by (simp add: x)
    then show ?thesis
      using Some IH by (auto simp: x Let_def beats_def sless_irrefl dest: sless_asym)
  qed
qed

lemma selectLoop_wins:
  assumes keys: "\<forall>(a, da) \<in> set xs. assets a = Some da"
    and dist: "distinct (map fst xs)"
    and k: "(k, d) \<in> set xs" "ExifInfo d = Some e" "FileSizeInByte e = s"
    and others: "\<forall>(a, da) \<in> set xs. a \<noteq> k \<longrightarrow> (\<forall>e'. ExifInfo da = Some e' \<longrightarrow>
                   FileSizeInByte e' <s s \<or> (FileSizeInByte e' = s \<and> tiedBehind assets d a da))"
    and state: "(bs <s s \<and> (b = '''' \<or> assets b \<noteq> None))
                 \<or> (bs = s \<and> (\<exists>best. tiedBehind assets d b best))"
  shows "selectLoop assets xs (b, bs) = Inr k"
  using keys dist k(1) others state
proof (induction xs arbitrary: b bs)
  case Nil
  then show ?case by simp
next
  case (Cons x xs)
  obtain a da where x: "x = (a, da)" by (cases x)
  have a_da: "assets a = Some da" using Cons.prems(1) by (simp add: x)
  have keys': "\<forall>(a, da) \<in> set xs. assets a = Some da" using Cons.prems(1) by simp
  have dist': "distinct (map fst xs)" and a_fresh: "a \<notin> fst ` set xs"
    using Cons.prems(2) by (simp_all add: x)
  have others': "\<forall>(a, da) \<in> set xs. a \<noteq> k \<longrightarrow> (\<forall>e'. ExifInfo da = Some e' \<longrightarrow>
                   FileSizeInByte e' <s s \<or> (FileSizeInByte e' = s \<and> tiedBehind assets d a da))"
    using Cons.prems(4) by simp
  show ?case
  proof (cases "a = k")
    case True
    have kd: "assets k = Some d"
      using Cons.prems(1,3) by auto
    with a_da True have da: "da = d" by simp
    have keep: "selectLoop assets xs (k, s) = Inr k"
    proof (rule selectLoop_keep [where d = d])
      show "\<forall>(a, da) \<in> set xs. \<forall>e. ExifInfo da = Some e \<longrightarrow>
             FileSizeInByte e <s s
             \<or> (FileSizeInByte e = s \<and> (k = '''' \<or> (assets k = Some d \<and> \<not> beats da d)))"
        using others' a_fresh True kd by (force simp: tiedBehind_def beats_def)
    qed
    from Cons.prems(5) show ?thesis
    proof
      assume "bs <s s \<and> (b = '''' \<or> assets b \<noteq> None)"
      then show ?thesis using keep k by (simp add: x True da)
    next
      assume "bs = s \<and> (\<exists>best. tiedBehind assets d b best)"
      then show ?thesis using keep k
        by (auto simp: x True da tiedBehind_def sless_irrefl)
    qed
  next
    case False
    then have kin: "(k, d) \<in> set xs" using Cons.prems(3) by (simp add: x)
    note IH = Cons.IH [OF keys' dist' kin others']
    show ?thesis
    proof (cases "ExifInfo da")
      case None
      then show ?thesis using IH [OF Cons.prems(5)] by (simp add: x)
    next
      case (Some e')
      with Cons.prems(4) False have cases: "FileSizeInByte e' <s s
          \<or> (FileSizeInByte e' = s \<and> tiedBehind assets d a da)"
        by (simp add: x)
      from Cons.prems(5) show ?thesis
      proof
        assume st: "bs <s s \<and> (b = '''' \<or> assets b \<noteq> None)"
        from cases show ?thesis
        proof
          assume lt: "FileSizeInByte e' <s s"
          have 1: "selectLoop assets xs (a, FileSizeInByte e') = Inr k"
            by (rule IH) (use lt a_da in auto)
          have 2: "selectLoop assets xs (a, bs) = Inr k"
            by (rule IH) (use st a_da in auto)
          have 3: "selectLoop assets xs (b, bs) = Inr k"
            by (rule IH) (use st in auto)
          show ?thesis using st 1 2 3 Some
            by (auto simp: x Let_def split: option.splits)
        next
          assume tie: "FileSizeInByte e' = s \<and> tiedBehind assets d a da"
          have "selectLoop assets xs (a, s) = Inr k"
            by (rule IH) (use tie in auto)
          then show ?thesis using st tie Some by (simp add: x)
        qed
      next
        assume st: "bs = s \<and> (\<exists>best. tiedBehind assets d b best)"
        have 3: "selectLoop assets xs (b, s) = Inr k"
          by (rule IH) (use st in auto)
        from cases show ?thesis
        proof
          assume lt: "FileSizeInByte e' <s s"
          then show ?thesis using st 3 Some
            by (auto simp: x Let_def sless_irrefl dest: sless_asym)
        next
          assume tie: "FileSizeInByte e' = s \<and> tiedBehind assets d a da"
          have "selectLoop assets xs (a, s) = Inr k"
            by (rule IH) (use tie in auto)
          then show ?thesis using st tie Some 3
            by (auto simp: x Let_def sless_irrefl tiedBehind_def)
        qed
      qed
    qed
  qed
qed

lemma selectLoop_step_cases:
  "selectLoop assets ((a, da) # xs) (b, bs) = Inl NilPointerDereference
      \<or> (\<exists>b' bs'. selectLoop assets ((a, da) # xs) (b, bs) = selectLoop assets xs (b', bs')
            \<and> (b' = b \<or> (b' = a \<and> ExifInfo da \<noteq> None)))"
proof (cases "ExifInfo da")
  case None
  then show ?thesis by auto
next
  case (Some e)
  show ?thesis
  proof (cases "assets b")
    case None
    then show ?thesis using Some by (simp add: Let_def) blast
  next
    case (Some best)
    then show ?thesis using \<open>ExifInfo da = Some e\<close> by (simp add: Let_def) blast
  qed
qed

lemma selectLoop_result:
  "selectLoop assets xs (b, bs) = Inr r \<Longrightarrow> r = b \<or> r \<in> fst ` {kd \<in> set xs. hasSize kd}"
proof (induction xs arbitrary: b bs)
  case Nil
  then show ?case by simp
next
  case (Cons x xs)
  obtain a da where x: "x = (a, da)" by (cases x)
  have step: "r = b \<or> r \<in> fst ` {kd \<in> set (x # xs). hasSize kd}"
    if "selectLoop assets xs (b', bs') = Inr r" "b' = b \<or> (b' = a \<and> ExifInfo da \<noteq> None)" for b' bs'
  proof -
    from Cons.IH [OF that(1)] have "r = b' \<or> r \<in> fst ` {kd \<in> set xs. hasSize kd}" .
    moreover have "(a, da) \<in> {kd \<in> set (x # xs). hasSize kd}" if "ExifInfo da \<noteq> None"
      using that by (simp add: x hasSize_def)
    then have "a \<in> fst ` {kd \<in> set (x # xs). hasSize kd}" if "ExifInfo da \<noteq> None"
      using that by force
    moreover have "fst ` {kd \<in> set xs. hasSize kd} \<subseteq> fst ` {kd \<in> set (x # xs). hasSize kd}"
      by auto
    ultimately show ?thesis using that(2) by blast
  qed
  have "selectLoop assets (x # xs) (b, bs) = Inl NilPointerDereference
      \<or> (\<exists>b' bs'. selectLoop assets (x # xs) (b, bs) = selectLoop assets xs (b', bs')
            \<and> (b' = b \<or> (b' = a \<and> ExifInfo da \<noteq> None)))"
    unfolding x by (rule selectLoop_step_cases)
  then consider "selectLoop assets (x # xs) (b, bs) = Inl NilPointerDereference"
    | b' bs' where "selectLoop assets (x # xs) (b, bs) = selectLoop assets xs (b', bs')"
        "b' = b \<or> (b' = a \<and> ExifInfo da \<noteq> None)"
    by blast
  then show ?case
  proof cases
    case 1
    with Cons.prems show ?thesis by simp
  next
    case 2
    from step [of b' bs'] 2 Cons.prems show ?thesis by simp
  qed
qed

lemma selectLoop_no_size:
  "\<forall>kd \<in> set xs. \<not> hasSize kd \<Longrightarrow> selectLoop assets xs (b, bs) = Inr b"
  by (induction xs) (auto simp: hasSize_def)

lemma selectLoop_filter:
  assumes "b \<noteq> '''' \<longrightarrow> m b = m' b"
    and "\<forall>(k, d) \<in> set xs. hasSize (k, d) \<longrightarrow> m k = m' k"
  shows "selectLoop m xs (b, bs) = selectLoop m' (filter hasSize xs) (b, bs)"
  using assms
proof (induction xs arbitrary: b bs)
  case Nil
  then show ?case by simp
next
  case (Cons x xs)
  obtain a da where x: "x = (a, da)" by (cases x)
  have rest: "\<forall>(k, d) \<in> set xs. hasSize (k, d) \<longrightarrow> m k = m' k"
    using Cons.prems(2) by simp
  note IH = Cons.IH [OF _ rest]
  have 2: "selectLoop m xs (b, bs) = selectLoop m' (filter hasSize xs) (b, bs)"
    by (rule IH) (use Cons.prems(1) in simp)
  show ?case
  proof (cases "ExifInfo da")
    case None
    then have nhs: "\<not> hasSize (a, da)"
      by (simp add: hasSize_def)
    show ?thesis
      using None 2 by (simp add: x nhs)
  next
    case (Some e)
    then have a: "m a = m' a" using Cons.prems(2) by (simp add: x hasSize_def)
    have 1: "selectLoop m xs (a, s) = selectLoop m' (filter hasSize xs) (a, s)" for s
      by (rule IH) (simp add: a)
    have hs: "hasSize (a, da)"
      using Some by (simp add: hasSize_def)
    show ?thesis
    proof (cases "FileSizeInByte e = bs \<and> b \<noteq> ''''")
      case True
      then have mb: "m b = m' b" using Cons.prems(1) by simp
      show ?thesis
        by (cases "m' b") (simp_all add: x hs Some Let_def mb 1 2)
    next
      case False
      then have "selectLoop m (x # xs) (b, bs) =
          (if bs <s FileSizeInByte e then selectLoop m xs (a, FileSizeInByte e)
           else selectLoop m xs (b, bs))"
        and "selectLoop m' ((a, da) # filter hasSize xs) (b, bs) =
          (if bs <s FileSizeInByte e then selectLoop m' (filter hasSize xs) (a, FileSizeInByte e)
           else selectLoop m' (filter hasSize xs) (b, bs))"
        by (auto simp: x Some Let_def)
      then show ?thesis
        by (simp add: x hs 1 2)
    qed
  qed
qed

lemma selectLoop_finds:
  assumes "\<forall>(a, da) \<in> set xs. assets a \<noteq> None"
    and "list_all (\<lambda>(k, d). k \<noteq> ''''
          \<and> (case ExifInfo d of None \<Rightarrow> True | Some e \<Rightarrow> 0 \<le>s FileSizeInByte e)) xs"
    and "\<exists>kd \<in> set xs. hasSize kd"
  shows "selectLoop assets xs ('''', - 1) \<noteq> Inr ''''"
  using assms
proof (induction xs)
  case Nil
  then show ?case by simp
next
  case (Cons x xs)
  obtain a da where x: "x = (a, da)" by (cases x)
  show ?case
  proof (cases "ExifInfo da")
    case None
    then show ?thesis using Cons by (auto simp: x hasSize_def)
  next
    case (Some e)
    then have a: "a \<noteq> ''''" and e: "- 1 <s FileSizeInByte e"
      using Cons.prems(2) by (auto simp: x intro: minus_one_sless)
    have keys: "\<forall>kd \<in> set xs. fst kd \<noteq> ''''"
      using Cons.prems(2) by (auto simp: list_all_iff)
    have "selectLoop assets xs (a, FileSizeInByte e) \<noteq> Inr ''''"
    proof
      assume "selectLoop assets xs (a, FileSizeInByte e) = Inr ''''"
      from selectLoop_result [OF this] a keys show False by auto
    qed
    then show ?thesis using Some e by (simp add: x)
  qed
qed

lemma map_of_keys:
  "distinct (map fst xs) \<Longrightarrow> \<forall>(a, da) \<in> set xs. map_of xs a = Some da"
  by auto

text \<open>
  Outside the data model the initial best, the empty identifier with size \<open>-1\<close>, shows: a
  candidate whose size is \<open>-1\<close> or less is never selected, and a candidate stored under
  the empty identifier is not replaced by a later candidate of the same size.
\<close>

lemma selectBest_negative_size:
  "selectBestQualityAsset [(''asset1'', sizedAsset ''asset1'' ''photo.jpg'' (- 1) 0)] = Inr ''''"
  by (simp add: selectBestQualityAsset_def sizedAsset_def sless_irrefl)

lemma selectBest_empty_identifier:
  "selectBestQualityAsset
     [('''', sizedAsset '''' ''photo.jpg'' 1000 2), (''asset2'', sizedAsset ''asset2'' ''image.jpg'' 1000 1)]
   = Inr ''''"
  by (simp add: selectBestQualityAsset_def sizedAsset_def sless_irrefl word_sless_alt)

section \<open>Properties of the reconciler and of the deletion loop\<close>


lemma trace_log [simp]:
  "trace (logInfo m w) = trace w" "trace (logWarning m w) = trace w"
  "trace (logError m w) = trace w" "trace (Printf m w) = trace w"
  by (simp_all add: logInfo_def logWarning_def logError_def Printf_def)

lemma remote_log [simp]:
  "remote (logInfo m w) = remote w" "remote (logWarning m w) = remote w"
  "remote (logError m w) = remote w" "remote (Printf m w) = remote w"
  by (simp_all add: logInfo_def logWarning_def logError_def Printf_def)

lemma logs_log [simp]:
  "logs (logInfo m w) = logs w @ [(INFO, m)]" "logs (logWarning m w) = logs w @ [(WARNING, m)]"
  "logs (logError m w) = logs w @ [(ERROR, m)]" "logs (Printf m w) = logs w @ [(STDOUT, m)]"
  by (simp_all add: logInfo_def logWarning_def logError_def Printf_def)

lemma addAssetsToAlbum_trace:
  "addAssetsToAlbum env a ids w = (r, w') \<Longrightarrow>
     trace w' = trace w @ [(AddAssetsToAlbum a ids, r = None)] \<and> logs w' = logs w"
  by (auto simp: addAssetsToAlbum_def split: prod.splits)

lemma deleteAsset_trace:
  "deleteAsset env a w = (r, w') \<Longrightarrow>
     trace w' = trace w @ [(DeleteAsset a, r = None)] \<and> logs w' = logs w"
  by (auto simp: deleteAsset_def split: prod.splits)

lemma getAlbumsForAsset_trace:
  "getAlbumsForAsset env a w = (r, w') \<Longrightarrow>
     trace w' = trace w @ [(GetAlbumsForAsset a, \<not> isl r)] \<and> logs w' = logs w"
  by (auto simp: getAlbumsForAsset_def split: prod.splits)

lemma getAssetDetails_trace:
  "getAssetDetails env a w = (r, w') \<Longrightarrow>
     trace w' = trace w @ [(GetAssetDetails a, \<not> isl r)] \<and> logs w' = logs w"
  by (auto simp: getAssetDetails_def split: prod.splits)

lemma additions_Cons:
  "additions assets aa (a # rest) =
     (if assetsToAdd assets aa a = [] then additions assets aa rest
      else (a, assetsToAdd assets aa a) # additions assets aa rest)"
  by (simp add: additions_def)

lemma additions_Nil [simp]: "additions assets aa [] = []"
  by (simp add: additions_def)

lemma syncLoop_dry:
  assumes "DryRun config"
  shows "syncLoop env config assets aa order (n, w) =
           (n + length (pairsOf (additions assets aa order)),
            w\<lparr>logs := logs w @ map (\<lambda>(a, ids). (INFO, WouldAdd (length ids) (truncateID a)))
                                 (additions assets aa order)\<rparr>)"
  using assms
proof (induction order arbitrary: n w)
  case Nil
  then show ?case by (simp add: pairsOf_def)
next
  case (Cons a rest)
  show ?case
  proof (cases "assetsToAdd assets aa a = []")
    case True
    then show ?thesis using Cons by (simp add: additions_Cons)
  next
    case False
    then show ?thesis using Cons
      by (simp add: additions_Cons pairsOf_def logInfo_def Let_def)
  qed
qed

lemma syncLoop_wet:
  assumes "\<not> DryRun config"
  shows "\<exists>new. trace (snd (syncLoop env config assets aa order (n, w))) = trace w @ new
           \<and> map fst new = map (\<lambda>(a, ids). AddAssetsToAlbum a ids) (additions assets aa order)
           \<and> fst (syncLoop env config assets aa order (n, w)) = n + length (pairsAdded new)"
  using assms
proof (induction order arbitrary: n w)
  case Nil
  then show ?case by (simp add: pairsAdded_def)
next
  case (Cons a rest)
  show ?case
  proof (cases "assetsToAdd assets aa a = []")
    case True
    then show ?thesis using Cons by (simp add: additions_Cons)
  next
    case False
    obtain r w' where call: "addAssetsToAlbum env a (assetsToAdd assets aa a) w = (r, w')"
      by (cases "addAssetsToAlbum env a (assetsToAdd assets aa a) w")
    define entry where "entry = (AddAssetsToAlbum a (assetsToAdd assets aa a), r = None)"
    have tr: "trace w' = trace w @ [entry]"
      using addAssetsToAlbum_trace [OF call] by (simp add: entry_def)
    define n' where "n' = (if r = None then n + length (assetsToAdd assets aa a) else n)"
    define w'' where "w'' = (case r of
        None \<Rightarrow> logInfo (Added (length (assetsToAdd assets aa a)) (truncateID a)) w'
      | Some err \<Rightarrow> logError (AddFailed (truncateID a) err) w')"
    have step: "syncLoop env config assets aa (a # rest) (n, w)
                = syncLoop env config assets aa rest (n', w'')"
      using False Cons.prems call by (cases r) (simp_all add: n'_def w''_def Let_def)
    have tr'': "trace w'' = trace w @ [entry]"
      using tr by (cases r) (simp_all add: w''_def)
    have n'': "n' = n + length (addedBy entry)"
      by (simp add: n'_def entry_def)
    from Cons.IH [OF Cons.prems, of n' w''] obtain new where
      new: "trace (snd (syncLoop env config assets aa rest (n', w''))) = trace w'' @ new"
        "map fst new = map (\<lambda>(a, ids). AddAssetsToAlbum a ids) (additions assets aa rest)"
        "fst (syncLoop env config assets aa rest (n', w'')) = n' + length (pairsAdded new)"
      by blast
    have "trace (snd (syncLoop env config assets aa (a # rest) (n, w))) = trace w @ (entry # new)"
      using new(1) tr'' unfolding step by simp
    moreover have "map fst (entry # new)
        = map (\<lambda>(a, ids). AddAssetsToAlbum a ids) (additions assets aa (a # rest))"
      using new(2) False by (simp add: additions_Cons entry_def)
    moreover have "fst (syncLoop env config assets aa (a # rest) (n, w))
        = n + length (pairsAdded (entry # new))"
      using new(3) n'' unfolding step by (simp add: pairsAdded_def)
    ultimately show ?thesis by blast
  qed
qed

lemma addCalls_append [simp]: "addCalls (xs @ ys) = addCalls xs @ addCalls ys"
  by (simp add: addCalls_def map_filter_def)

lemma deleteCalls_append [simp]: "deleteCalls (xs @ ys) = deleteCalls xs @ deleteCalls ys"
  by (simp add: deleteCalls_def map_filter_def)

lemma pairsAdded_append [simp]: "pairsAdded (xs @ ys) = pairsAdded xs @ pairsAdded ys"
  by (simp add: pairsAdded_def)

lemma wouldDeleteLogged_append [simp]:
  "wouldDeleteLogged (xs @ ys) = wouldDeleteLogged xs @ wouldDeleteLogged ys"
  by (simp add: wouldDeleteLogged_def map_filter_def)

lemma observers_Nil [simp]:
  "addCalls [] = []" "deleteCalls [] = []" "pairsAdded [] = []" "wouldDeleteLogged [] = []"
  by (simp_all add: addCalls_def deleteCalls_def pairsAdded_def wouldDeleteLogged_def map_filter_def)

lemma observers_single [simp]:
  "addCalls [(AddAssetsToAlbum a ids, ok)] = [(a, ids)]"
  "addCalls [(GetAlbumsForAsset x, ok)] = []"
  "addCalls [(GetAssetDetails x, ok)] = []"
  "addCalls [(DeleteAsset x, ok)] = []"
  "deleteCalls [(DeleteAsset x, ok)] = [x]"
  "deleteCalls [(GetAlbumsForAsset x, ok)] = []"
  "deleteCalls [(GetAssetDetails x, ok)] = []"
  "deleteCalls [(AddAssetsToAlbum a ids, ok)] = []"
  "pairsAdded [(GetAlbumsForAsset x, ok)] = []"
  "pairsAdded [(GetAssetDetails x, ok)] = []"
  "pairsAdded [(DeleteAsset x, ok)] = []"
  by (simp_all add: addCalls_def deleteCalls_def pairsAdded_def map_filter_def)

lemma wouldDeleteLogged_single:
  "wouldDeleteLogged [(l, m)] = (case m of WouldDelete a \<Rightarrow> [a] | _ \<Rightarrow> [])"
  by (cases m) (simp_all add: wouldDeleteLogged_def wouldDelete_def map_filter_def)

lemma addCalls_of_map:
  "map fst new = map (\<lambda>(a, ids). AddAssetsToAlbum a ids) adds \<Longrightarrow> addCalls new = adds"
proof (induction new arbitrary: adds)
  case Nil
  then show ?case by simp
next
  case (Cons x new)
  then obtain ad adds' where adds: "adds = ad # adds'" by (cases adds) auto
  obtain a ids where ad: "ad = (a, ids)" by (cases ad)
  obtain c ok where x: "x = (c, ok)" by (cases x)
  from Cons.prems have c: "c = AddAssetsToAlbum a ids"
    and rest: "map fst new = map (\<lambda>(a, ids). AddAssetsToAlbum a ids) adds'"
    by (simp_all add: adds ad x)
  have "addCalls (x # new) = addCalls [x] @ addCalls new"
    by (simp flip: addCalls_append)
  then show ?case using Cons.IH [OF rest] by (simp add: x c adds ad)
qed

lemma pairsAdded_all_ok:
  "\<forall>(c, ok) \<in> set new. ok \<Longrightarrow> pairsAdded new = pairsOf (addCalls new)"
proof (induction new)
  case Nil
  then show ?case by (simp add: pairsOf_def)
next
  case (Cons x new)
  obtain c ok where x: "x = (c, ok)" by (cases x)
  have split: "pairsAdded (x # new) = pairsAdded [x] @ pairsAdded new"
    "addCalls (x # new) = addCalls [x] @ addCalls new"
    by (simp_all flip: pairsAdded_append addCalls_append)
  have "pairsAdded [x] = pairsOf (addCalls [x])"
    using Cons.prems by (cases c) (simp_all add: x pairsOf_def pairsAdded_def)
  then show ?case using Cons unfolding split by (simp add: pairsOf_def)
qed

lemma fetchAlbums_observed:
  "fetchAlbums env assets (aa, ids, w) = (aa', ids', w') \<Longrightarrow>
     addCalls (trace w') = addCalls (trace w) \<and> pairsAdded (trace w') = pairsAdded (trace w)
     \<and> deleteCalls (trace w') = deleteCalls (trace w)"
proof (induction assets arbitrary: aa ids w)
  case Nil
  then show ?case by simp
next
  case (Cons asset rest)
  obtain r w1 where call: "getAlbumsForAsset env (DuplicateAsset.ID asset) w = (r, w1)"
    by (cases "getAlbumsForAsset env (DuplicateAsset.ID asset) w")
  note tr = getAlbumsForAsset_trace [OF call]
  show ?case
  proof (cases r)
    case (Inl err)
    with Cons.prems call have "fetchAlbums env rest
        (aa, ids, logWarning (FetchAlbumsFailed (truncateID (DuplicateAsset.ID asset)) err) w1)
        = (aa', ids', w')"
      by simp
    from Cons.IH [OF this] tr show ?thesis by simp
  next
    case (Inr albums)
    with Cons.prems call have "fetchAlbums env rest
        (AList.update (DuplicateAsset.ID asset) albums aa,
         fold (\<lambda>album ids. List.insert (Album.ID album) ids) albums ids, w1) = (aa', ids', w')"
      by simp
    from Cons.IH [OF this] tr show ?thesis by simp
  qed
qed

lemma fold_logInfo_same:
  "trace (fold (\<lambda>(assetID, albums). logInfo (f assetID albums)) xs v) = trace v
   \<and> remote (fold (\<lambda>(assetID, albums). logInfo (f assetID albums)) xs v) = remote v"
  by (induction xs arbitrary: v) auto

lemma showAssignments_same [simp]:
  "trace (showAssignments env config aa w) = trace w"
  "remote (showAssignments env config aa w) = remote w"
  by (simp_all add: showAssignments_def fold_logInfo_same)

lemma synchronizeAlbums_unfold:
  assumes "fetchAlbums env (DuplicateGroup.Assets grp) ([], [], w) = (aa, ids, w1)"
  shows "synchronizeAlbums env config grp w =
    ((fst (syncLoop env config (DuplicateGroup.Assets grp) aa (rangeAllAlbumIDs env ids)
             (0, showAssignments env config aa w1)), None),
     snd (syncLoop env config (DuplicateGroup.Assets grp) aa (rangeAllAlbumIDs env ids)
             (0, showAssignments env config aa w1)))"
  using assms by (simp add: synchronizeAlbums_def split: prod.splits)






lemma fetchDetails_observed:
  "fetchDetails env assets (ad, w) = (ad', w') \<Longrightarrow>
     addCalls (trace w') = addCalls (trace w) \<and> deleteCalls (trace w') = deleteCalls (trace w)
     \<and> wouldDeleteLogged (logs w') = wouldDeleteLogged (logs w)"
proof (induction assets arbitrary: ad w)
  case Nil
  then show ?case by simp
next
  case (Cons asset rest)
  obtain r w1 where call: "getAssetDetails env (DuplicateAsset.ID asset) w = (r, w1)"
    by (cases "getAssetDetails env (DuplicateAsset.ID asset) w")
  note tr = getAssetDetails_trace [OF call]
  show ?case
  proof (cases r)
    case (Inl err)
    with Cons.prems call have "fetchDetails env rest
        (ad, logWarning (FetchDetailsFailed (truncateID (DuplicateAsset.ID asset)) err) w1)
        = (ad', w')"
      by simp
    from Cons.IH [OF this] tr show ?thesis by (simp add: wouldDeleteLogged_single)
  next
    case (Inr details)
    with Cons.prems call have "fetchDetails env rest
        (AList.update (DuplicateAsset.ID asset) details ad, w1) = (ad', w')"
      by simp
    from Cons.IH [OF this] tr show ?thesis by simp
  qed
qed

lemma deleteLoop_dry:
  "DryRun config \<Longrightarrow>
     deleteLoop env config ids w
       = w\<lparr>logs := logs w @ map (\<lambda>a. (INFO, WouldDelete (truncateID a))) ids\<rparr>"
  by (induction ids arbitrary: w) (simp_all add: logInfo_def)

lemma deleteLoop_wet:
  "\<not> DryRun config \<Longrightarrow>
     deleteCalls (trace (deleteLoop env config ids w)) = deleteCalls (trace w) @ ids
     \<and> addCalls (trace (deleteLoop env config ids w)) = addCalls (trace w)"
proof (induction ids arbitrary: w)
  case Nil
  then show ?case by simp
next
  case (Cons a rest)
  obtain r w1 where call: "deleteAsset env a w = (r, w1)"
    by (cases "deleteAsset env a w")
  note tr = deleteAsset_trace [OF call]
  show ?case
  proof (cases r)
    case None
    then show ?thesis
      using Cons.IH [OF Cons.prems, of "logInfo (Deleted (truncateID a)) w1"] Cons.prems call tr
      by simp
  next
    case (Some err)
    then show ?thesis
      using Cons.IH [OF Cons.prems, of "logError (DeleteFailed (truncateID a) err) w1"]
        Cons.prems call tr
      by simp
  qed
qed

lemma wouldDeleteLogged_map:
  "wouldDeleteLogged (map (\<lambda>a. (INFO, WouldDelete (f a))) ids) = map f ids"
  by (induction ids) (simp_all add: wouldDeleteLogged_def wouldDelete_def map_filter_def)

lemma showBest_observed:
  "showBest config ad best w = Inr w' \<Longrightarrow>
     trace w' = trace w \<and> wouldDeleteLogged (logs w') = wouldDeleteLogged (logs w)"
  by (auto simp: showBest_def wouldDeleteLogged_single split: if_splits option.splits)







lemma confirmAndDelete_skipped:
  "DryRun config \<or> Yes config \<Longrightarrow>
     confirmAndDelete env config ids w = deleteLoop env config ids w"
  by (auto simp: confirmAndDelete_def)

lemma showBest_Verbose:
  "Verbose c1 = Verbose c2 \<Longrightarrow> showBest c1 ad best w = showBest c2 ad best w"
  by (simp add: showBest_def)

text \<open>
  Two runs of the deletion from the same state, under configurations that agree on the
  verbose flag, go the same way up to the confirmation: either both end early in the same
  state, or both reach the confirmation with the same list of assets in the same state.
\<close>

lemma autoDeleteDuplicates_split:
  assumes "Verbose c1 = Verbose c2"
  shows "\<exists>v ids. deleteCalls (trace v) = deleteCalls (trace w)
           \<and> addCalls (trace v) = addCalls (trace w)
           \<and> wouldDeleteLogged (logs v) = wouldDeleteLogged (logs w)
           \<and> ((snd (autoDeleteDuplicates env c1 grp w) = v
                \<and> snd (autoDeleteDuplicates env c2 grp w) = v)
               \<or> (snd (autoDeleteDuplicates env c1 grp w) = confirmAndDelete env c1 ids v
                   \<and> snd (autoDeleteDuplicates env c2 grp w) = confirmAndDelete env c2 ids v))"
proof -
  let ?w0 = "logInfo (Analyzing (length (DuplicateGroup.Assets grp))) w"
  obtain ad w1 where fetch: "fetchDetails env (DuplicateGroup.Assets grp) ([], ?w0) = (ad, w1)"
    by (metis surj_pair)
  from fetchDetails_observed [OF fetch]
  have w1: "deleteCalls (trace w1) = deleteCalls (trace w)" "addCalls (trace w1) = addCalls (trace w)"
    "wouldDeleteLogged (logs w1) = wouldDeleteLogged (logs w)"
    by (simp_all add: wouldDeleteLogged_single)
  show ?thesis
  proof (cases "length ad < 2")
    case True
    then have "snd (autoDeleteDuplicates env c grp w) = logWarning NotEnoughDetails w1" for c
      by (simp add: autoDeleteDuplicates_def fetch)
    then show ?thesis using w1
      by (intro exI [of _ "logWarning NotEnoughDetails w1"]) (simp add: wouldDeleteLogged_single)
  next
    case long: False
    show ?thesis
    proof (cases "selectBestQualityAsset (rangeSelect env ad)")
      case (Inl p)
      with long have "snd (autoDeleteDuplicates env c grp w) = w1" for c
        by (simp add: autoDeleteDuplicates_def fetch)
      then show ?thesis using w1 by (intro exI [of _ w1]) simp
    next
      case (Inr best)
      show ?thesis
      proof (cases "best = ''''")
        case True
        with long Inr have "snd (autoDeleteDuplicates env c grp w) = w1" for c
          by (simp add: autoDeleteDuplicates_def fetch)
        then show ?thesis using w1 by (intro exI [of _ w1]) simp
      next
        case named: False
        let ?wb = "logInfo (BestAsset (truncateID best)) w1"
        have wb: "deleteCalls (trace ?wb) = deleteCalls (trace w)"
          "addCalls (trace ?wb) = addCalls (trace w)"
          "wouldDeleteLogged (logs ?wb) = wouldDeleteLogged (logs w)"
          using w1 by (simp_all add: wouldDeleteLogged_single)
        have sb: "showBest c2 ad best ?wb = showBest c1 ad best ?wb"
          by (rule showBest_Verbose) (simp add: assms)
        show ?thesis
        proof (cases "showBest c1 ad best ?wb")
          case (Inl p)
          with long Inr named sb have "snd (autoDeleteDuplicates env c1 grp w) = ?wb"
            "snd (autoDeleteDuplicates env c2 grp w) = ?wb"
            by (simp_all add: autoDeleteDuplicates_def fetch)
          then show ?thesis using wb by (intro exI [of _ ?wb]) simp
        next
          case shown: (Inr w2)
          from showBest_observed [OF shown] wb
          have w2: "deleteCalls (trace w2) = deleteCalls (trace w)"
            "addCalls (trace w2) = addCalls (trace w)"
            "wouldDeleteLogged (logs w2) = wouldDeleteLogged (logs w)"
            by simp_all
          let ?ids = "filter (\<lambda>assetID. assetID \<noteq> best) (map fst (rangeDelete env ad))"
          show ?thesis
          proof (cases "?ids = []")
            case True
            with long Inr named sb shown
            have "snd (autoDeleteDuplicates env c1 grp w) = logInfo NoDuplicatesToDelete w2"
              "snd (autoDeleteDuplicates env c2 grp w) = logInfo NoDuplicatesToDelete w2"
              by (simp_all add: autoDeleteDuplicates_def fetch)
            then show ?thesis using w2
              by (intro exI [of _ "logInfo NoDuplicatesToDelete w2"])
                (simp add: wouldDeleteLogged_single)
          next
            case False
            with long Inr named sb shown
            have "snd (autoDeleteDuplicates env c1 grp w) = confirmAndDelete env c1 ?ids w2"
              "snd (autoDeleteDuplicates env c2 grp w) = confirmAndDelete env c2 ?ids w2"
              by (simp_all add: autoDeleteDuplicates_def fetch)
            then show ?thesis using w2
              by (intro exI [of _ w2] exI [of _ ?ids]) simp
          qed
        qed
      qed
    qed
  qed
qed

lemmas stubs =
  stubEnv_def envFetchOfBFails_def envAInX_def envBothInX_def albumsAOnlyFetched_def
  albumsAInX_def albumsBothInX_def detailsBySize_def noDetails_def accept_def

section \<open>Claims about the filename classifier\<close>



section \<open>Claims about the quality ranker\<close>

text \<open>
  The winner of a candidate map, whatever the iteration order: a candidate of non-negative
  size such that every other candidate with size metadata is strictly smaller, or ties on
  size and originality class, has a non-empty identifier and is strictly later.
\<close>

lemma selectBest_strictly_ahead:
  assumes dist: "distinct (map fst assets)"
    and k: "(k, d) \<in> set assets" "ExifInfo d = Some e" "0 \<le>s FileSizeInByte e"
    and others: "\<forall>(a, da) \<in> set assets. a \<noteq> k \<longrightarrow> (\<forall>e'. ExifInfo da = Some e' \<longrightarrow>
        FileSizeInByte e' <s FileSizeInByte e
        \<or> (FileSizeInByte e' = FileSizeInByte e \<and> a \<noteq> ''''
            \<and> (isOriginalFilename (OriginalFileName da) \<longleftrightarrow> isOriginalFilename (OriginalFileName d))
            \<and> FileCreatedAt d < FileCreatedAt da))"
  shows "selectBestQualityAsset assets = Inr k"
  unfolding selectBestQualityAsset_def
proof (rule selectLoop_wins [where d = d and e = e and s = "FileSizeInByte e"])
  show keys: "\<forall>(a, da) \<in> set assets. map_of assets a = Some da"
    using dist by (rule map_of_keys)
  show "distinct (map fst assets)" by (rule dist)
  show "(k, d) \<in> set assets" "ExifInfo d = Some e" "FileSizeInByte e = FileSizeInByte e"
    using k by simp_all
  show "\<forall>(a, da) \<in> set assets. a \<noteq> k \<longrightarrow> (\<forall>e'. ExifInfo da = Some e' \<longrightarrow>
          FileSizeInByte e' <s FileSizeInByte e
          \<or> (FileSizeInByte e' = FileSizeInByte e \<and> tiedBehind (map_of assets) d a da))"
    using others keys unfolding tiedBehind_def by fastforce
  show "(- 1 <s FileSizeInByte e \<and> ('''' = '''' \<or> map_of assets '''' \<noteq> None))
        \<or> (- 1 = FileSizeInByte e \<and> (\<exists>best. tiedBehind (map_of assets) d '''' best))"
    using k(3) by (simp add: minus_one_sless)
qed

text \<open>
  C4. In a candidate map where exactly one asset has the strictly largest byte size among
  the candidates that possess size metadata, \<open>selectBestQualityAsset\<close> returns that
  asset, in whatever order the candidates are visited and whatever the file names and
  creation instants are. Byte sizes are non-negative, as the data model has them.
\<close>

theorem selectBest_largest_size_wins:
  assumes "distinct (map fst assets)"
    and "(k, d) \<in> set assets" and "ExifInfo d = Some e" and "0 \<le>s FileSizeInByte e"
    and "\<forall>(a, da) \<in> set assets. a \<noteq> k \<longrightarrow>
           (\<forall>e'. ExifInfo da = Some e' \<longrightarrow> FileSizeInByte e' <s FileSizeInByte e)"
  shows "selectBestQualityAsset assets = Inr k"
  using assms(5) by (intro selectBest_strictly_ahead [OF assms(1-4)]) fastforce

theorem selectBest_largest_size_wins_witness:
  "selectBestQualityAsset
     [(''asset1'', sizedAsset ''asset1'' ''photo.jpg'' 1000000 0),
      (''asset2'', sizedAsset ''asset2'' ''photo.jpg'' 2000000 0)] = Inr ''asset2''
   \<and> selectBestQualityAsset
     [(''asset2'', sizedAsset ''asset2'' ''photo.jpg'' 2000000 0),
      (''asset1'', sizedAsset ''asset1'' ''photo.jpg'' 1000000 0)] = Inr ''asset2''"
proof
  show "selectBestQualityAsset
     [(''asset1'', sizedAsset ''asset1'' ''photo.jpg'' 1000000 0),
      (''asset2'', sizedAsset ''asset2'' ''photo.jpg'' 2000000 0)] = Inr ''asset2''"
    by (rule selectBest_largest_size_wins
          [where d = "sizedAsset ''asset2'' ''photo.jpg'' 2000000 0"
             and e = "\<lparr>FileSizeInByte = 2000000, ImageWidth = 0, ImageHeight = 0\<rparr>"])
       (simp_all add: sizedAsset_def word_sless_alt word_sle_eq)
  show "selectBestQualityAsset
     [(''asset2'', sizedAsset ''asset2'' ''photo.jpg'' 2000000 0),
      (''asset1'', sizedAsset ''asset1'' ''photo.jpg'' 1000000 0)] = Inr ''asset2''"
    by (rule selectBest_largest_size_wins
          [where d = "sizedAsset ''asset2'' ''photo.jpg'' 2000000 0"
             and e = "\<lparr>FileSizeInByte = 2000000, ImageWidth = 0, ImageHeight = 0\<rparr>"])
       (simp_all add: sizedAsset_def word_sless_alt word_sle_eq)
qed

text \<open>
  C5. When a candidate ties with the current best on byte size and both are of the same
  originality class, the candidate replaces the best exactly when its creation instant is
  strictly earlier; on equal instants the current best, seen first, is kept. For a map of
  two such candidates the ranker therefore returns the strictly earlier one, and the first
  visited one when the instants are equal.
\<close>

theorem selectBest_same_class_earlier_wins:
  assumes "a \<noteq> ''''"
    and "ExifInfo da = Some ea" and "ExifInfo db = Some eb"
    and "FileSizeInByte eb = FileSizeInByte ea"
    and "isOriginalFilename (OriginalFileName db) \<longleftrightarrow> isOriginalFilename (OriginalFileName da)"
  shows "(assets a = Some da \<longrightarrow>
            selectLoop assets ((b, db) # rest) (a, FileSizeInByte ea)
            = selectLoop assets rest
                (if FileCreatedAt db < FileCreatedAt da then b else a, FileSizeInByte ea))
       \<and> (a \<noteq> b \<and> 0 \<le>s FileSizeInByte ea \<longrightarrow>
            selectBestQualityAsset [(a, da), (b, db)]
            = Inr (if FileCreatedAt db < FileCreatedAt da then b else a))"
  using assms by (simp add: selectBestQualityAsset_def sless_irrefl minus_one_sless)

theorem selectBest_same_class_earlier_wins_witness:
  "selectLoop [''asset1'' \<mapsto> sizedAsset ''asset1'' ''photo.jpg'' 1000000 2]
     [(''asset2'', sizedAsset ''asset2'' ''image.jpg'' 1000000 1)] (''asset1'', 1000000)
   = Inr ''asset2''
   \<and> selectBestQualityAsset
     [(''asset1'', sizedAsset ''asset1'' ''photo.jpg'' 1000000 2),
      (''asset2'', sizedAsset ''asset2'' ''image.jpg'' 1000000 1)] = Inr ''asset2''
   \<and> selectBestQualityAsset
     [(''asset1'', sizedAsset ''asset1'' ''photo.jpg'' 1000000 1),
      (''asset2'', sizedAsset ''asset2'' ''image.jpg'' 1000000 1)] = Inr ''asset1''"
proof -
  have orig: "isOriginalFilename ''photo.jpg''" "isOriginalFilename ''image.jpg''"
    by (simp_all add: isOriginalFilename_def prefixes_def HasPrefix_def ToUpper_def
        toUpperByte_def char_of_eq_iff)
  have size: "(0 :: 64 word) \<le>s 1000000"
    by (simp add: word_sle_eq)
  show ?thesis
    using selectBest_same_class_earlier_wins
      [of "''asset1''" "sizedAsset ''asset1'' ''photo.jpg'' 1000000 2"
          "\<lparr>FileSizeInByte = 1000000, ImageWidth = 0, ImageHeight = 0\<rparr>"
          "sizedAsset ''asset2'' ''image.jpg'' 1000000 1"
          "\<lparr>FileSizeInByte = 1000000, ImageWidth = 0, ImageHeight = 0\<rparr>"
          "[''asset1'' \<mapsto> sizedAsset ''asset1'' ''photo.jpg'' 1000000 2]" "''asset2''" "[]"]
      selectBest_same_class_earlier_wins
      [of "''asset1''" "sizedAsset ''asset1'' ''photo.jpg'' 1000000 1"
          "\<lparr>FileSizeInByte = 1000000, ImageWidth = 0, ImageHeight = 0\<rparr>"
          "sizedAsset ''asset2'' ''image.jpg'' 1000000 1"
          "\<lparr>FileSizeInByte = 1000000, ImageWidth = 0, ImageHeight = 0\<rparr>"
          "[''asset1'' \<mapsto> sizedAsset ''asset1'' ''photo.jpg'' 1000000 1]" "''asset2''" "[]"]
      orig size
    by (simp add: sizedAsset_def)
qed

text \<open>
  C6. The ranker never fails: on every input it returns an identifier or the empty
  sentinel. It returns the sentinel when no candidate has size metadata (the empty map
  included), and on the candidate maps of the data model only then. Candidates without
  size metadata take no part: removing them does not change the result, and the asset
  returned is always one that has size metadata.
\<close>

theorem selectBest_sentinel_and_exclusion:
  "(\<exists>r. selectBestQualityAsset assets = Inr r)
   \<and> ((\<forall>kd \<in> set assets. \<not> hasSize kd) \<longrightarrow> selectBestQualityAsset assets = Inr '''')
   \<and> (wellFormed assets \<longrightarrow>
        (selectBestQualityAsset assets = Inr '''' \<longleftrightarrow> (\<forall>kd \<in> set assets. \<not> hasSize kd)))
   \<and> (distinct (map fst assets) \<longrightarrow>
        selectBestQualityAsset assets = selectBestQualityAsset (filter hasSize assets))
   \<and> (\<forall>r. selectBestQualityAsset assets = Inr r \<longrightarrow>
        r = '''' \<or> r \<in> fst ` {kd \<in> set assets. hasSize kd})"
proof -
  have dom: "\<forall>(a, da) \<in> set assets. map_of assets a \<noteq> None"
    by (auto simp: map_of_eq_None_iff intro: rev_image_eqI)
  have total: "\<exists>r. selectBestQualityAsset assets = Inr r"
    unfolding selectBestQualityAsset_def by (rule selectLoop_total [OF dom]) simp
  have none: "selectBestQualityAsset assets = Inr ''''" if "\<forall>kd \<in> set assets. \<not> hasSize kd"
    unfolding selectBestQualityAsset_def using that by (rule selectLoop_no_size)
  have some: "selectBestQualityAsset assets \<noteq> Inr ''''"
    if "wellFormed assets" "\<exists>kd \<in> set assets. hasSize kd"
    unfolding selectBestQualityAsset_def
    using that dom by (intro selectLoop_finds) (simp_all add: wellFormed_def)
  have filtered: "selectBestQualityAsset assets = selectBestQualityAsset (filter hasSize assets)"
    if dist: "distinct (map fst assets)"
    unfolding selectBestQualityAsset_def
  proof (rule selectLoop_filter)
    show "'''' \<noteq> '''' \<longrightarrow> map_of assets '''' = map_of (filter hasSize assets) ''''"
      by simp
    show "\<forall>(k, d) \<in> set assets. hasSize (k, d) \<longrightarrow> map_of assets k = map_of (filter hasSize assets) k"
    proof clarify
      fix k d assume kd: "(k, d) \<in> set assets" "hasSize (k, d)"
      have "map_of assets k = Some d"
        using dist kd(1) by simp
      moreover have "map_of (filter hasSize assets) k = Some d"
        using dist kd by (intro map_of_is_SomeI) (simp_all add: distinct_map_filter)
      ultimately show "map_of assets k = map_of (filter hasSize assets) k" by simp
    qed
  qed
  have result: "r = '''' \<or> r \<in> fst ` {kd \<in> set assets. hasSize kd}"
    if "selectBestQualityAsset assets = Inr r" for r
    using that unfolding selectBestQualityAsset_def by (rule selectLoop_result)
  from total none some filtered result show ?thesis by blast
qed

theorem selectBest_sentinel_and_exclusion_witness:
  "selectBestQualityAsset
     [(''asset1'', \<lparr>ID = ''asset1'', OriginalFileName = ''a.jpg'', ExifInfo = None, FileCreatedAt = 1\<rparr>),
      (''asset2'', sizedAsset ''asset2'' ''IMG_2.jpg'' 0 2)] \<noteq> Inr ''''
   \<and> selectBestQualityAsset
     [(''asset1'', \<lparr>ID = ''asset1'', OriginalFileName = ''a.jpg'', ExifInfo = None, FileCreatedAt = 1\<rparr>),
      (''asset2'', sizedAsset ''asset2'' ''IMG_2.jpg'' 0 2)]
     = selectBestQualityAsset [(''asset2'', sizedAsset ''asset2'' ''IMG_2.jpg'' 0 2)]
   \<and> selectBestQualityAsset
     [(''asset1'', \<lparr>ID = ''asset1'', OriginalFileName = ''a.jpg'', ExifInfo = None, FileCreatedAt = 1\<rparr>)]
     = Inr ''''"
proof -
  let ?a1 = "(''asset1'', \<lparr>ID = ''asset1'', OriginalFileName = ''a.jpg'', ExifInfo = None, FileCreatedAt = 1\<rparr>)"
  let ?a2 = "(''asset2'', sizedAsset ''asset2'' ''IMG_2.jpg'' 0 2)"
  have wf: "wellFormed [?a1, ?a2]" "distinct (map fst [?a1, ?a2])"
    by (simp_all add: wellFormed_def sizedAsset_def)
  have hs: "\<not> hasSize ?a1" "hasSize ?a2"
    by (simp_all add: hasSize_def sizedAsset_def)
  have sized: "\<not> (\<forall>kd \<in> set [?a1, ?a2]. \<not> hasSize kd)"
    and unsized: "\<forall>kd \<in> set [?a1]. \<not> hasSize kd"
    and keep: "filter hasSize [?a1, ?a2] = [?a2]"
    using hs by simp_all
  note two = selectBest_sentinel_and_exclusion [of "[?a1, ?a2]"]
  note one = selectBest_sentinel_and_exclusion [of "[?a1]"]
  have "selectBestQualityAsset [?a1, ?a2] \<noteq> Inr ''''"
    using two wf(1) sized by blast
  moreover have "selectBestQualityAsset [?a1, ?a2] = selectBestQualityAsset [?a2]"
    using two wf(2) unfolding keep by blast
  moreover have "selectBestQualityAsset [?a1] = Inr ''''"
    using one unsized by blast
  ultimately show ?thesis by blast
qed




text \<open>
  C1 on the code. Two candidates of equal size, the first visited named
  \<^verbatim>\<open>vacation.jpg\<close> (original), the second \<^verbatim>\<open>IMG_1234.jpg\<close> (camera-generated) with an
  earlier creation instant: the second branch of the comparison, meant for candidates of
  the same class, also runs here, and the camera-generated asset is selected.
\<close>

theorem selectBest_earlier_camera_name_beats_original:
  "isOriginalFilename ''vacation.jpg'' \<and> \<not> isOriginalFilename ''IMG_1234.jpg''
   \<and> selectBestQualityAsset
       [(''asset1'', sizedAsset ''asset1'' ''vacation.jpg'' 1000000 2),
        (''asset2'', sizedAsset ''asset2'' ''IMG_1234.jpg'' 1000000 1)] = Inr ''asset2''"
proof -
  have orig: "isOriginalFilename ''vacation.jpg''" "\<not> isOriginalFilename ''IMG_1234.jpg''"
    by (simp_all add: isOriginalFilename_def prefixes_def HasPrefix_def ToUpper_def
        toUpperByte_def char_of_eq_iff)
  show ?thesis
    by (simp add: selectBestQualityAsset_def sizedAsset_def orig word_sless_alt)
qed

section \<open>Claims about the album reconciler and the group processor\<close>

text \<open>
  C10. \<open>synchronizeAlbums\<close> returns a nil error for every group, every configuration
  and every behaviour of the remote service, whichever fetches and writes fail; hence
  \<open>processDuplicateGroup\<close> never returns its "album synchronization failed" error.
\<close>

theorem synchronizeAlbums_never_fails:
  "snd (fst (synchronizeAlbums env config grp w)) = None
   \<and> fst (processDuplicateGroup env config groupNum totalGroups grp w')
       \<noteq> Inr (Some (Wrapf ''album synchronization failed'' err))"
proof -
  have nil: "snd (fst (synchronizeAlbums env config grp v)) = None" for v
    by (simp add: synchronizeAlbums_def split: prod.splits)
  obtain w0 where w0: "w0 = logInfo (ProcessingGroup groupNum totalGroups
      (length (DuplicateGroup.Assets grp))) w'"
    by simp
  obtain n e w1 where run: "synchronizeAlbums env config grp w0 = ((n, e), w1)"
    by (metis surj_pair)
  with nil [of w0] have e: "e = None" by simp
  obtain r w3 where del: "autoDeleteDuplicates env config grp
      (if 0 < n then logInfo (Synchronized n) w1 else logInfo AlreadySynchronized w1) = (r, w3)"
    by (metis surj_pair)
  have "fst (processDuplicateGroup env config groupNum totalGroups grp w')
      \<noteq> Inr (Some (Wrapf ''album synchronization failed'' err))"
    unfolding processDuplicateGroup_def Let_def w0 [symmetric] run e
    using del by (cases r) (auto split: option.splits)
  with nil show ?thesis by simp
qed






text \<open>
  C9. In preview mode \<open>synchronizeAlbums\<close> and \<open>autoDeleteDuplicates\<close> issue no write:
  no \<^verbatim>\<open>addAssetsToAlbum\<close> and no \<^verbatim>\<open>deleteAsset\<close> call is added to the trace. The
  count returned by the reconciler in preview mode is the number of (asset, album) pairs
  in the additions that the same run in normal mode issues, and it is the count that run
  returns when none of its additions fails. The assets announced by the preview log lines
  of the deletion are those for which the same run in normal mode, confirmation skipped,
  issues a \<^verbatim>\<open>deleteAsset\<close> call, in the same number and order.
\<close>

theorem preview_mode_counts_without_writing:
  assumes "DryRun config"
  shows "addCalls (trace (snd (synchronizeAlbums env config grp w))) = addCalls (trace w)
    \<and> deleteCalls (trace (snd (synchronizeAlbums env config grp w))) = deleteCalls (trace w)
    \<and> (\<exists>adds.
          addCalls (trace (snd (synchronizeAlbums env (config\<lparr>DryRun := False\<rparr>) grp w)))
            = addCalls (trace w) @ adds
          \<and> fst (fst (synchronizeAlbums env config grp w)) = length (pairsOf adds)
          \<and> ((\<forall>albumID assetIDs. (AddAssetsToAlbum albumID assetIDs, False)
                 \<notin> set (trace (snd (synchronizeAlbums env (config\<lparr>DryRun := False\<rparr>) grp w))))
              \<longrightarrow> fst (fst (synchronizeAlbums env (config\<lparr>DryRun := False\<rparr>) grp w))
                   = fst (fst (synchronizeAlbums env config grp w))))
    \<and> addCalls (trace (snd (autoDeleteDuplicates env config grp w))) = addCalls (trace w)
    \<and> deleteCalls (trace (snd (autoDeleteDuplicates env config grp w))) = deleteCalls (trace w)
    \<and> (\<exists>deleted.
          deleteCalls (trace (snd (autoDeleteDuplicates env
                                     (config\<lparr>DryRun := False, Yes := True\<rparr>) grp w)))
            = deleteCalls (trace w) @ deleted
          \<and> wouldDeleteLogged (logs (snd (autoDeleteDuplicates env config grp w)))
            = wouldDeleteLogged (logs w) @ map truncateID deleted)"
proof -
  let ?assets = "DuplicateGroup.Assets grp"
  let ?wet = "config\<lparr>DryRun := False\<rparr>"
  obtain aa ids w1 where fetch: "fetchAlbums env ?assets ([], [], w) = (aa, ids, w1)"
    by (metis surj_pair)
  let ?order = "rangeAllAlbumIDs env ids"
  let ?adds = "additions ?assets aa ?order"
  note obs = fetchAlbums_observed [OF fetch]
  have same_show: "showAssignments env ?wet aa w1 = showAssignments env config aa w1"
    by (simp add: showAssignments_def)
  let ?w2 = "showAssignments env config aa w1"
  have dry_run: "synchronizeAlbums env config grp w
      = ((length (pairsOf ?adds), None),
         ?w2\<lparr>logs := logs ?w2 @ map (\<lambda>(a, ids). (INFO, WouldAdd (length ids) (truncateID a))) ?adds\<rparr>)"
    unfolding synchronizeAlbums_unfold [OF fetch] using assms by (simp add: syncLoop_dry)
  have sync_dry: "addCalls (trace (snd (synchronizeAlbums env config grp w))) = addCalls (trace w)"
    "deleteCalls (trace (snd (synchronizeAlbums env config grp w))) = deleteCalls (trace w)"
    "fst (fst (synchronizeAlbums env config grp w)) = length (pairsOf ?adds)"
    unfolding dry_run using obs by simp_all
  have wet: "\<not> DryRun ?wet" by simp
  from syncLoop_wet [OF wet, of env ?assets aa ?order 0 ?w2]
  obtain new where new:
    "trace (snd (syncLoop env ?wet ?assets aa ?order (0, ?w2))) = trace ?w2 @ new"
    "map fst new = map (\<lambda>(a, ids). AddAssetsToAlbum a ids) ?adds"
    "fst (syncLoop env ?wet ?assets aa ?order (0, ?w2)) = 0 + length (pairsAdded new)"
    by blast
  have wet_run: "synchronizeAlbums env ?wet grp w
      = ((fst (syncLoop env ?wet ?assets aa ?order (0, ?w2)), None),
         snd (syncLoop env ?wet ?assets aa ?order (0, ?w2)))"
    unfolding synchronizeAlbums_unfold [OF fetch] same_show ..
  have wet_trace: "trace (snd (synchronizeAlbums env ?wet grp w)) = trace w1 @ new"
    unfolding wet_run using new(1) by simp
  have wet_calls: "addCalls (trace (snd (synchronizeAlbums env ?wet grp w)))
      = addCalls (trace w) @ ?adds"
    unfolding wet_trace using new(2) obs by (simp add: addCalls_of_map)
  have wet_count: "fst (fst (synchronizeAlbums env ?wet grp w))
      = fst (fst (synchronizeAlbums env config grp w))"
    if ok: "\<forall>albumID assetIDs. (AddAssetsToAlbum albumID assetIDs, False)
              \<notin> set (trace (snd (synchronizeAlbums env ?wet grp w)))"
  proof -
    have "\<forall>(c, ok) \<in> set new. ok"
    proof clarify
      fix c b assume mem: "(c, b) \<in> set new"
      then have "c \<in> set (map fst new)" by force
      then obtain a l where c: "c = AddAssetsToAlbum a l"
        unfolding new(2) by auto
      have "(c, b) \<in> set (trace (snd (synchronizeAlbums env ?wet grp w)))"
        unfolding wet_trace using mem by simp
      with ok c show b by (cases b) auto
    qed
    then have "pairsAdded new = pairsOf (addCalls new)"
      by (rule pairsAdded_all_ok)
    also have "addCalls new = ?adds"
      using new(2) by (rule addCalls_of_map)
    finally show ?thesis
      unfolding sync_dry(3) wet_run using new(3) by simp
  qed
  have sync: "\<exists>adds.
      addCalls (trace (snd (synchronizeAlbums env ?wet grp w))) = addCalls (trace w) @ adds
      \<and> fst (fst (synchronizeAlbums env config grp w)) = length (pairsOf adds)
      \<and> ((\<forall>albumID assetIDs. (AddAssetsToAlbum albumID assetIDs, False)
             \<notin> set (trace (snd (synchronizeAlbums env ?wet grp w))))
          \<longrightarrow> fst (fst (synchronizeAlbums env ?wet grp w))
               = fst (fst (synchronizeAlbums env config grp w)))"
    using wet_calls sync_dry(3) wet_count by blast
  let ?del = "config\<lparr>DryRun := False, Yes := True\<rparr>"
  have "Verbose config = Verbose ?del" by simp
  from autoDeleteDuplicates_split [OF this, of w env grp]
  obtain v D where v: "deleteCalls (trace v) = deleteCalls (trace w)"
      "addCalls (trace v) = addCalls (trace w)"
      "wouldDeleteLogged (logs v) = wouldDeleteLogged (logs w)"
    and ways: "(snd (autoDeleteDuplicates env config grp w) = v
                \<and> snd (autoDeleteDuplicates env ?del grp w) = v)
               \<or> (snd (autoDeleteDuplicates env config grp w) = confirmAndDelete env config D v
                   \<and> snd (autoDeleteDuplicates env ?del grp w) = confirmAndDelete env ?del D v)"
    by blast
  have dry_del: "confirmAndDelete env config D v
      = v\<lparr>logs := logs v @ map (\<lambda>a. (INFO, WouldDelete (truncateID a))) D\<rparr>"
    using assms by (simp add: confirmAndDelete_skipped deleteLoop_dry)
  have wet_del: "deleteCalls (trace (confirmAndDelete env ?del D v)) = deleteCalls (trace v) @ D"
    using deleteLoop_wet [of ?del env D v] by (simp add: confirmAndDelete_skipped)
  have del: "addCalls (trace (snd (autoDeleteDuplicates env config grp w))) = addCalls (trace w)
      \<and> deleteCalls (trace (snd (autoDeleteDuplicates env config grp w))) = deleteCalls (trace w)
      \<and> (\<exists>deleted.
            deleteCalls (trace (snd (autoDeleteDuplicates env ?del grp w)))
              = deleteCalls (trace w) @ deleted
            \<and> wouldDeleteLogged (logs (snd (autoDeleteDuplicates env config grp w)))
              = wouldDeleteLogged (logs w) @ map truncateID deleted)"
    using ways
  proof
    assume "snd (autoDeleteDuplicates env config grp w) = v
        \<and> snd (autoDeleteDuplicates env ?del grp w) = v"
    then show ?thesis using v by (intro conjI exI [of _ "[]"]) simp_all
  next
    assume "snd (autoDeleteDuplicates env config grp w) = confirmAndDelete env config D v
        \<and> snd (autoDeleteDuplicates env ?del grp w) = confirmAndDelete env ?del D v"
    then show ?thesis using v wet_del
      by (intro conjI exI [of _ D]) (simp_all add: dry_del wouldDeleteLogged_map)
  qed
  from sync_dry(1,2) sync del show ?thesis by blast
qed

theorem preview_mode_counts_without_writing_witness:
  "addCalls (trace (snd (synchronizeAlbums envAInX (testConfig True) groupAB emptyWorld))) = []
   \<and> fst (fst (synchronizeAlbums envAInX ((testConfig True)\<lparr>DryRun := False\<rparr>) groupAB emptyWorld))
     = fst (fst (synchronizeAlbums envAInX (testConfig True) groupAB emptyWorld))
   \<and> deleteCalls (trace (snd (autoDeleteDuplicates envAInX (testConfig True) groupAB emptyWorld))) = []"
proof -
  let ?env = envAInX
  have dry: "DryRun (testConfig True)"
    by (simp add: testConfig_def)
  have wet_trace: "trace (snd (synchronizeAlbums ?env ((testConfig True)\<lparr>DryRun := False\<rparr>)
      groupAB emptyWorld))
      = [(GetAlbumsForAsset ''assetA'', True), (GetAlbumsForAsset ''assetB'', True),
         (AddAssetsToAlbum ''albumX'' [''assetB''], True)]"
    by (simp add: synchronizeAlbums_def stubs testConfig_def groupAB_def emptyWorld_def
      albumX_def getAlbumsForAsset_def addAssetsToAlbum_def showAssignments_def assetsToAdd_def
      albumsOf_def inAlbum_def truncateID_def logInfo_def logWarning_def logError_def)
  have ok: "\<forall>albumID assetIDs. (AddAssetsToAlbum albumID assetIDs, False)
      \<notin> set (trace (snd (synchronizeAlbums ?env ((testConfig True)\<lparr>DryRun := False\<rparr>)
                          groupAB emptyWorld)))"
    unfolding wet_trace by simp
  have start: "addCalls (trace emptyWorld) = []" "deleteCalls (trace emptyWorld) = []"
    by (simp_all add: emptyWorld_def)
  from preview_mode_counts_without_writing [OF dry, of ?env groupAB emptyWorld] ok
  have "addCalls (trace (snd (synchronizeAlbums ?env (testConfig True) groupAB emptyWorld)))
          = addCalls (trace emptyWorld)"
    and "fst (fst (synchronizeAlbums ?env ((testConfig True)\<lparr>DryRun := False\<rparr>) groupAB emptyWorld))
          = fst (fst (synchronizeAlbums ?env (testConfig True) groupAB emptyWorld))"
    and "deleteCalls (trace (snd (autoDeleteDuplicates ?env (testConfig True) groupAB emptyWorld)))
          = deleteCalls (trace emptyWorld)"
    by blast+
  then show ?thesis unfolding start by blast
qed

end
